theory Spec2Isabelle
  imports Complex_Main
begin

section \<open>Sales correction pipeline of \<^verbatim>\<open>correct_sales.py\<close>\<close>

text \<open>
  The program reads a table of cumulative sales totals per date, derives daily sales,
  fills missing calendar days, detects anomalous days and interpolates them. A pandas
  data frame is modelled as a list of rows (a row is a record of the columns), NaN as
  \<open>None\<close>, a date as the number of its day (\<open>int\<close>), the cumulative total as an
  integer. The arithmetic that pandas does in binary floating point is done here on
  exact rationals; the two agree while the totals stay far below \<open>2 ^ 53\<close>.
\<close>

subsection \<open>Data frames\<close>

text \<open>
  A row of \<^verbatim>\<open>df\<close> as \<^verbatim>\<open>load_data\<close> returns it: the index label is the position of
  the row in the CSV file (neither \<^verbatim>\<open>drop_duplicates\<close> nor \<^verbatim>\<open>sort_values\<close> renumbers
  it), the columns are \<^verbatim>\<open>Total Sales\<close> and \<^verbatim>\<open>Date\<close>.
\<close>

record csv_row =
  Index :: nat
  Total_Sales :: int
  Date :: int

text \<open>The same row once lines 24 to 26 have added \<^verbatim>\<open>Daily_Sales\<close> and \<^verbatim>\<open>Notes\<close>.\<close>

record sales_row = csv_row +
  Daily_Sales :: int
  Notes :: string

text \<open>
  A row of \<^verbatim>\<open>df_full\<close> and \<^verbatim>\<open>df_final\<close>: one per calendar day, its index label is its
  position. Until line 56 \<^verbatim>\<open>Daily_Sales\<close> and \<^verbatim>\<open>Notes\<close> may be NaN
  (\<open>'d = int option\<close>, \<open>'n = string option\<close>); from line 57 on they are not
  (\<open>'d = int\<close>, \<open>'n = string\<close>).
\<close>

record ('d, 'n) day_row =
  date :: int
  total_sales :: "int option"
  daily_sales :: 'd
  day_notes :: 'n

type_synonym open_row = "(int option, string option) day_row"
type_synonym final_row = "(int, string) day_row"

datatype error = ValueError

subsection \<open>\<^verbatim>\<open>load_data\<close>: first occurrence of each date, ascending dates\<close>

definition read_csv :: "(int \<times> int) list \<Rightarrow> csv_row list" where
  "read_csv lines =
     map (\<lambda>(i, (t, d)). \<lparr>Index = i, Total_Sales = t, Date = d\<rparr>) (enumerate 0 lines)"

fun drop_duplicates :: "csv_row list \<Rightarrow> csv_row list" where
  "drop_duplicates [] = []"
| "drop_duplicates (r # rs) = r # drop_duplicates (filter (\<lambda>x. Date x \<noteq> Date r) rs)"

definition load_data :: "(int \<times> int) list \<Rightarrow> csv_row list" where
  "load_data lines = sort_key Date (drop_duplicates (read_csv lines))"

subsection \<open>Column operations of pandas\<close>

text \<open>\<^verbatim>\<open>Series.diff()\<close>: NaN in the first row, then each value minus the one before.\<close>

fun diff :: "int list \<Rightarrow> int option list" where
  "diff [] = []"
| "diff (x # xs) = None # map2 (\<lambda>a b. Some (b - a)) (x # xs) xs"

definition fillna :: "'a \<Rightarrow> 'a option list \<Rightarrow> 'a list" where
  "fillna v col = map (\<lambda>x. case x of None \<Rightarrow> v | Some y \<Rightarrow> y) col"

text \<open>\<^verbatim>\<open>Series.shift(1)\<close>: every value moves one row down, NaN enters at the top.\<close>

definition shift1 :: "'a list \<Rightarrow> 'a option list" where
  "shift1 col = (if col = [] then [] else None # map Some (butlast col))"

text \<open>
  \<^verbatim>\<open>rolling(window=3, min_periods=1).mean()\<close>: the mean of the row and of the (at most
  two) rows before it; \<open>i - 2\<close> on \<open>nat\<close> stops at 0, which is the shorter window at
  the start.
\<close>

definition rolling_mean3 :: "int list \<Rightarrow> rat list" where
  "rolling_mean3 col =
     map (\<lambda>i. let w = drop (i - 2) (take (Suc i) col)
              in of_int (sum_list w) / of_nat (length w)) [0..<length col]"

text \<open>
  Python's \<^verbatim>\<open>round(x)\<close> and numpy's \<^verbatim>\<open>round()\<close>: the nearest integer, a tie going to
  the even one.
\<close>

definition round_half_even :: "rat \<Rightarrow> int" where
  "round_half_even x =
     (let f = \<lfloor>x\<rfloor>; r = x - of_int f
      in if r < 1 / 2 then f else if 1 / 2 < r then f + 1
         else if even f then f else f + 1)"

subsection \<open>Lines 24 to 31: daily sales, notes, the full calendar\<close>

definition add_daily_sales :: "csv_row list \<Rightarrow> sales_row list" where
  "add_daily_sales df =
     map2 (\<lambda>r ds. \<lparr>Index = Index r, Total_Sales = Total_Sales r, Date = Date r,
                   Daily_Sales = ds,
                   Notes = (if Index r = 0 then ''Assumed'' else ''Delta'')\<rparr>)
       df (fillna 0 (diff (map Total_Sales df)))"

definition date_range :: "int \<Rightarrow> int \<Rightarrow> int list" where
  "date_range start_date end_date = [start_date..end_date]"

text \<open>
  \<^verbatim>\<open>set_index("Date").reindex(full_dates).reset_index()\<close>: the row of each date of the
  calendar, all NaN where the date has none. pandas refuses duplicate dates; the caller
  checks for them.
\<close>

definition reindex :: "sales_row list \<Rightarrow> int list \<Rightarrow> open_row list" where
  "reindex df full_dates =
     map (\<lambda>d. case find (\<lambda>r. Date r = d) df of
                None \<Rightarrow> \<lparr>date = d, total_sales = None, daily_sales = None, day_notes = None\<rparr>
              | Some r \<Rightarrow> \<lparr>date = d, total_sales = Some (Total_Sales r),
                           daily_sales = Some (Daily_Sales r), day_notes = Some (Notes r)\<rparr>)
       full_dates"

subsection \<open>Lines 34 to 57: filling the gaps\<close>

text \<open>The two \<^verbatim>\<open>while\<close> loops that look for the known totals around row \<open>i\<close>.\<close>

function scan_back :: "int option list \<Rightarrow> int \<Rightarrow> int" where
  "scan_back col start_idx =
     (if 0 \<le> start_idx \<and> col ! nat start_idx = None
      then scan_back col (start_idx - 1) else start_idx)"
  by pat_completeness auto
termination
  by (relation "measure (\<lambda>(col, s). nat (s + 1))") auto

function scan_fwd :: "int option list \<Rightarrow> nat \<Rightarrow> nat" where
  "scan_fwd col end_idx =
     (if end_idx < length col \<and> col ! end_idx = None
      then scan_fwd col (Suc end_idx) else end_idx)"
  by pat_completeness auto
termination
  by (relation "measure (\<lambda>(col, e). length col - e)") auto

text \<open>The inner \<^verbatim>\<open>for j in range(start_idx + 1, end_idx + 1)\<close>.\<close>

definition assign_avg :: "open_row list \<Rightarrow> nat \<Rightarrow> nat \<Rightarrow> int \<Rightarrow> open_row list" where
  "assign_avg df start_idx end_idx avg_delta =
     fold (\<lambda>j d. d[j := (d ! j)\<lparr>daily_sales := Some avg_delta, day_notes := Some ''Assumed''\<rparr>])
       [Suc start_idx..<Suc end_idx] df"

text \<open>
  One pass of the outer loop body, at row \<open>i\<close>. \<open>gap_size\<close> is positive whenever the
  division is reached, since \<open>start_idx < i \<le> end_idx\<close>.
\<close>

definition fill_at :: "open_row list \<Rightarrow> nat \<Rightarrow> open_row list" where
  "fill_at df i =
     (let col = map total_sales df in
      if col ! i = None \<or> i = length df - 1 then
        let s = scan_back col (int i - 1);
            start_idx = (if s < 0 then 0 else nat s);
            end_idx = scan_fwd col i
        in if end_idx < length df then
             (case (col ! start_idx, col ! end_idx) of
                (Some start_value, Some end_value) \<Rightarrow>
                  let total_delta = end_value - start_value;
                      gap_size = int end_idx - int start_idx;
                      avg_delta = round_half_even (of_int total_delta / of_int gap_size)
                  in assign_avg df start_idx end_idx avg_delta
              | _ \<Rightarrow> df)
           else df
      else df)"

definition fill_loop :: "open_row list \<Rightarrow> open_row list" where
  "fill_loop df = fold (\<lambda>i d. fill_at d i) [1..<length df] df"

text \<open>Lines 56 and 57: what is still NaN becomes 0 and \<^verbatim>\<open>"Assumed"\<close>.\<close>

definition close_row :: "open_row \<Rightarrow> final_row" where
  "close_row r =
     \<lparr>date = date r, total_sales = total_sales r,
      daily_sales = (case daily_sales r of None \<Rightarrow> 0 | Some v \<Rightarrow> v),
      day_notes = (case day_notes r of None \<Rightarrow> ''Assumed'' | Some s \<Rightarrow> s)\<rparr>"

definition fill_gaps :: "open_row list \<Rightarrow> final_row list" where
  "fill_gaps df_full = map close_row (fill_loop df_full)"

subsection \<open>Lines 59 to 71: features and anomaly flags\<close>

text \<open>
  The isolation forest is a library model, fitted with a random generator. It enters
  as a parameter: from the contamination setting, the seed (\<^verbatim>\<open>random_state\<close>) and the
  feature rows it gives the label of row \<open>i\<close>, \<open>-1\<close> for an outlier and \<open>1\<close>
  for an inlier, as \<^verbatim>\<open>fit_predict\<close> does.
\<close>

datatype contamination = Auto | Fraction rat

type_synonym features = "(int \<times> int \<times> rat) list"
type_synonym isolation_forest = "contamination \<Rightarrow> nat \<Rightarrow> features \<Rightarrow> nat \<Rightarrow> int"

definition feature_rows :: "final_row list \<Rightarrow> features" where
  "feature_rows df_final =
     (let ds = map daily_sales df_final;
          Lag1 = fillna 0 (shift1 ds);
          Rolling_Mean = rolling_mean3 ds
      in zip ds (zip Lag1 Rolling_Mean))"

definition anomaly_score :: "isolation_forest \<Rightarrow> contamination \<Rightarrow> final_row list \<Rightarrow> int list" where
  "anomaly_score iso_forest c df_final =
     map (iso_forest c 42 (feature_rows df_final)) [0..<length df_final]"

definition detect :: "isolation_forest \<Rightarrow> contamination \<Rightarrow> final_row list \<Rightarrow> bool list" where
  "detect iso_forest c df_final =
     (let iso_anomalies = map (\<lambda>s. s = - 1) (anomaly_score iso_forest c df_final);
          negatives = map (\<lambda>r. daily_sales r < 0) df_final
      in map2 (\<or>) iso_anomalies negatives)"

text \<open>Lines 74 and 75: the rows of the input whose date is flagged, for the plot.\<close>

definition flagged_originals :: "sales_row list \<Rightarrow> final_row list \<Rightarrow> bool list \<Rightarrow> (int \<times> int) list" where
  "flagged_originals df df_final anomalies =
     (let anomaly_dates = map (date \<circ> fst) (filter snd (zip df_final anomalies))
      in map (\<lambda>r. (Date r, Daily_Sales r)) (filter (\<lambda>r. Date r \<in> set anomaly_dates) df))"

subsection \<open>Lines 77 to 81: interpolating the flagged days\<close>

text \<open>
  \<^verbatim>\<open>Series.interpolate(method="linear")\<close> with the defaults of pandas: rows count as
  equally spaced; a NaN between two values lies on the line through them; a NaN after
  the last value takes that value; a NaN before the first value stays NaN.
\<close>

fun last_valid :: "rat option list \<Rightarrow> nat \<Rightarrow> (nat \<times> rat) option" where
  "last_valid col 0 = None"
| "last_valid col (Suc k) =
     (case col ! k of Some v \<Rightarrow> Some (k, v) | None \<Rightarrow> last_valid col k)"

function first_valid :: "rat option list \<Rightarrow> nat \<Rightarrow> (nat \<times> rat) option" where
  "first_valid col k =
     (if length col \<le> k then None
      else case col ! k of Some v \<Rightarrow> Some (k, v) | None \<Rightarrow> first_valid col (Suc k))"
  by pat_completeness auto
termination
  by (relation "measure (\<lambda>(col, k). length col - k)") auto

definition interpolate_at :: "rat option list \<Rightarrow> nat \<Rightarrow> rat option" where
  "interpolate_at col i =
     (case col ! i of
        Some v \<Rightarrow> Some v
      | None \<Rightarrow>
          (case last_valid col i of
             None \<Rightarrow> None
           | Some (a, va) \<Rightarrow>
               (case first_valid col (Suc i) of
                  None \<Rightarrow> Some va
                | Some (b, vb) \<Rightarrow>
                    Some (va + (vb - va) * (of_nat i - of_nat a) / (of_nat b - of_nat a)))))"

definition interpolate :: "rat option list \<Rightarrow> rat option list" where
  "interpolate col = map (interpolate_at col) [0..<length col]"

text \<open>Line 78: the daily sales of the flagged rows become NaN.\<close>

definition mask_anomalies :: "final_row list \<Rightarrow> bool list \<Rightarrow> rat option list" where
  "mask_anomalies df_final anomalies =
     map2 (\<lambda>r a. if a then None else Some (of_int (daily_sales r))) df_final anomalies"

definition correct_anomalies :: "final_row list \<Rightarrow> bool list \<Rightarrow> final_row list" where
  "correct_anomalies df_final anomalies =
     (let filled = fillna 0 (interpolate (mask_anomalies df_final anomalies));
          rounded = map round_half_even filled
      in map2 (\<lambda>(r, a) v. r\<lparr>daily_sales := v,
                               day_notes := (if a then ''Assumed'' else day_notes r)\<rparr>)
           (zip df_final anomalies) rounded)"

subsection \<open>\<^verbatim>\<open>process_sales_data\<close>\<close>

text \<open>
  \<^verbatim>\<open>pd.date_range\<close> raises \<^verbatim>\<open>ValueError\<close> on an empty frame (its start is NaT), and
  \<^verbatim>\<open>reindex\<close> raises it on duplicate dates. The result is \<^verbatim>\<open>df_final\<close> and
  \<^verbatim>\<open>original_anomalies\<close>.
\<close>

definition process_sales_data ::
  "isolation_forest \<Rightarrow> csv_row list \<Rightarrow> contamination \<Rightarrow> error + final_row list \<times> (int \<times> int) list" where
  "process_sales_data iso_forest df0 c =
     (let df = add_daily_sales df0 in
      if df = [] \<or> \<not> distinct (map Date df) then Inl ValueError
      else
        let full_dates = date_range (Min (set (map Date df))) (Max (set (map Date df)));
            df_full = reindex df full_dates;
            df_final = fill_gaps df_full;
            anomalies = detect iso_forest c df_final;
            original_anomalies = flagged_originals df df_final anomalies
        in Inr (correct_anomalies df_final anomalies, original_anomalies))"

subsection \<open>Auxiliary notions for the proofs\<close>


declare scan_back.simps [simp del] scan_fwd.simps [simp del]

text \<open>
  Two stand-ins for the library model, for the concrete instances: one labels every row
  an inlier under every seed, the other only under the seed 42.
\<close>

definition all_inliers :: isolation_forest where
  "all_inliers c random_state X i = 1"

definition seed_42_inliers :: isolation_forest where
  "seed_42_inliers c random_state X i = (if random_state = 42 then 1 else - 1)"

section \<open>Properties\<close>

subsection \<open>Rounding, flags and the corrector, row by row\<close>

lemma round_half_even_of_int: "round_half_even (of_int x) = x"
  by (simp add: round_half_even_def)

lemma length_anomaly_score: "length (anomaly_score forest c df) = length df"
  by (simp add: anomaly_score_def)

lemma length_detect: "length (detect forest c df) = length df"
  by (simp add: detect_def length_anomaly_score)

lemma length_mask: "length flags = length df \<Longrightarrow> length (mask_anomalies df flags) = length df"
  by (simp add: mask_anomalies_def)

lemma mask_nth:
  "length flags = length df \<Longrightarrow> i < length df \<Longrightarrow>
   mask_anomalies df flags ! i = (if flags ! i then None else Some (of_int (daily_sales (df ! i))))"
  by (simp add: mask_anomalies_def)

lemma correct_nth:
  assumes "length flags = length df" "i < length df"
  shows "correct_anomalies df flags ! i =
         (df ! i)\<lparr>daily_sales :=
                    round_half_even (case interpolate_at (mask_anomalies df flags) i of
                                       None \<Rightarrow> 0 | Some v \<Rightarrow> v),
                  day_notes := (if flags ! i then ''Assumed'' else day_notes (df ! i))\<rparr>"
  using assms
  by (simp add: correct_anomalies_def fillna_def interpolate_def length_mask)

lemma length_correct:
  "length flags = length df \<Longrightarrow> length (correct_anomalies df flags) = length df"
  by (simp add: correct_anomalies_def fillna_def interpolate_def length_mask)

lemma correct_unflagged:
  assumes "length flags = length df" "i < length df" "\<not> flags ! i"
  shows "correct_anomalies df flags ! i = df ! i"
  using assms
  by (simp add: correct_nth interpolate_at_def mask_nth round_half_even_of_int)

lemma correct_no_flags:
  assumes "length flags = length df" "\<forall>b\<in>set flags. \<not> b"
  shows "correct_anomalies df flags = df"
proof (rule nth_equalityI)
  show "length (correct_anomalies df flags) = length df"
    using assms(1) by (rule length_correct)
next
  fix i assume "i < length (correct_anomalies df flags)"
  then have i: "i < length df" using assms(1) by (simp add: length_correct)
  then have "\<not> flags ! i" using assms by (simp add: all_set_conv_all_nth)
  with assms(1) i show "correct_anomalies df flags ! i = df ! i"
    by (rule correct_unflagged)
qed

subsection \<open>The anomaly flag\<close>

text \<open>
  Claim C3. The flag of a day is true exactly when the isolation forest labels the day
  an outlier (score \<open>-1\<close>) or the daily sales of the day are negative; so a negative
  day is flagged whatever its score.
\<close>

theorem anomaly_flag_iff:
  "i < length df_final \<Longrightarrow>
   detect forest c df_final ! i =
     (anomaly_score forest c df_final ! i = - 1 \<or> daily_sales (df_final ! i) < 0)"
  by (simp add: detect_def length_anomaly_score)

theorem anomaly_flag_iff_witness:
  "(1::nat) < length [\<lparr>date = 1, total_sales = Some 100, daily_sales = 0, day_notes = ''Assumed''\<rparr>,
                     \<lparr>date = 2, total_sales = Some 95, daily_sales = - 5, day_notes = ''Assumed''\<rparr>]
   \<and> detect (\<lambda>c s f i. 1) Auto
        [\<lparr>date = 1, total_sales = Some 100, daily_sales = 0, day_notes = ''Assumed''\<rparr>,
         \<lparr>date = 2, total_sales = Some 95, daily_sales = - 5, day_notes = ''Assumed''\<rparr>] ! 1"
proof -
  let ?df = "[\<lparr>date = 1, total_sales = Some 100, daily_sales = 0, day_notes = ''Assumed''\<rparr>,
              \<lparr>date = 2, total_sales = Some 95, daily_sales = - 5, day_notes = ''Assumed''\<rparr>]"
  have h: "(1::nat) < length ?df" by simp
  show ?thesis using h anomaly_flag_iff [OF h, of "\<lambda>c s f i. 1" Auto] by simp
qed

subsection \<open>Correcting a series without flagged days\<close>

text \<open>
  Claim C9. When the detector flags no day of a series (as for a series that is already
  corrected and has no anomaly left), the correction step returns the series as it is:
  the same dates, totals, daily sales and notes.
\<close>

theorem correct_anomalies_idempotent:
  "\<forall>b\<in>set (detect forest c df_final). \<not> b \<Longrightarrow>
   correct_anomalies df_final (detect forest c df_final) = df_final"
  by (rule correct_no_flags) (simp_all add: length_detect)

theorem correct_anomalies_idempotent_witness:
  "detect (\<lambda>c s f i. 1) Auto
        [\<lparr>date = 1, total_sales = Some 100, daily_sales = 0, day_notes = ''Assumed''\<rparr>,
         \<lparr>date = 2, total_sales = Some 110, daily_sales = 10, day_notes = ''Assumed''\<rparr>]
      = [False, False]
   \<and> correct_anomalies
        [\<lparr>date = 1, total_sales = Some 100, daily_sales = 0, day_notes = ''Assumed''\<rparr>,
         \<lparr>date = 2, total_sales = Some 110, daily_sales = 10, day_notes = ''Assumed''\<rparr>]
        (detect (\<lambda>c s f i. 1) Auto
          [\<lparr>date = 1, total_sales = Some 100, daily_sales = 0, day_notes = ''Assumed''\<rparr>,
           \<lparr>date = 2, total_sales = Some 110, daily_sales = 10, day_notes = ''Assumed''\<rparr>])
      = [\<lparr>date = 1, total_sales = Some 100, daily_sales = 0, day_notes = ''Assumed''\<rparr>,
         \<lparr>date = 2, total_sales = Some 110, daily_sales = 10, day_notes = ''Assumed''\<rparr>]"
proof -
  let ?df = "[\<lparr>date = 1, total_sales = Some 100, daily_sales = 0, day_notes = ''Assumed''\<rparr>,
              \<lparr>date = 2, total_sales = Some 110, daily_sales = 10, day_notes = ''Assumed''\<rparr>]"
  have d: "detect (\<lambda>c s f i. 1) Auto ?df = [False, False]"
    by (simp add: detect_def anomaly_score_def upt_rec)
  then have h: "\<forall>b\<in>set (detect (\<lambda>c s f i. 1) Auto ?df). \<not> b"
    by simp
  show ?thesis using d correct_anomalies_idempotent [OF h] by simp
qed

subsection \<open>The two scans\<close>


lemma scan_back_ge: "- 1 \<le> m \<Longrightarrow> - 1 \<le> scan_back col m"
proof (induction col m rule: scan_back.induct)
  case (1 col m)
  show ?case
  proof (cases "0 \<le> m \<and> col ! nat m = None")
    case True
    with 1 show ?thesis by (subst scan_back.simps) simp
  next
    case False
    with 1 show ?thesis by (subst scan_back.simps) auto
  qed
qed










subsection \<open>One pass of the gap loop\<close>

lemma fold_update_length:
  "length (fold (\<lambda>j d. d[j := g (d ! j)]) js df) = length df"
  by (induction js arbitrary: df) simp_all

lemma fold_update_nth:
  "j < length df \<Longrightarrow>
   fold (\<lambda>j d. d[j := g (d ! j)]) [a..<b] df ! j =
     (if a \<le> j \<and> j < b then g (df ! j) else df ! j)"
proof (induction b)
  case 0
  then show ?case by simp
next
  case (Suc b)
  let ?F = "fold (\<lambda>j d. d[j := g (d ! j)]) [a..<b] df"
  have len: "length ?F = length df" by (rule fold_update_length)
  have IH: "?F ! j = (if a \<le> j \<and> j < b then g (df ! j) else df ! j)"
    using Suc by simp
  show ?case
  proof (cases "a \<le> b")
    case True
    then have "fold (\<lambda>j d. d[j := g (d ! j)]) [a..<Suc b] df = ?F[b := g (?F ! b)]"
      by simp
    moreover have "?F[b := g (?F ! b)] ! j = (if b = j then g (?F ! b) else ?F ! j)"
      using Suc.prems len by (cases "b = j") simp_all
    ultimately show ?thesis using IH True by auto
  next
    case False
    then have "fold (\<lambda>j d. d[j := g (d ! j)]) [a..<Suc b] df = df" by simp
    moreover from False have "\<not> (a \<le> j \<and> j < Suc b)" by arith
    ultimately show ?thesis by (simp only: if_False)
  qed
qed

lemma length_assign_avg: "length (assign_avg df s e v) = length df"
  unfolding assign_avg_def by (rule fold_update_length)

lemma assign_avg_nth:
  "j < length df \<Longrightarrow>
   assign_avg df s e v ! j =
     (if s < j \<and> j \<le> e
      then (df ! j)\<lparr>daily_sales := Some v, day_notes := Some ''Assumed''\<rparr> else df ! j)"
  unfolding assign_avg_def by (subst fold_update_nth) auto

lemma total_sales_assign_avg: "map total_sales (assign_avg df s e v) = map total_sales df"
  by (rule nth_equalityI) (simp_all add: length_assign_avg assign_avg_nth)

lemma date_assign_avg: "map date (assign_avg df s e v) = map date df"
  by (rule nth_equalityI) (simp_all add: length_assign_avg assign_avg_nth)


lemma length_fill_at: "length (fill_at df i) = length df"
  by (simp add: fill_at_def Let_def length_assign_avg split: option.splits)

lemma total_sales_fill_at: "map total_sales (fill_at df i) = map total_sales df"
  by (simp add: fill_at_def Let_def total_sales_assign_avg split: option.splits)

lemma date_fill_at: "map date (fill_at df i) = map date df"
  by (simp add: fill_at_def Let_def date_assign_avg split: option.splits)

lemma fold_fill_at_frame:
  "length (fold (\<lambda>i d. fill_at d i) is df) = length df \<and>
   map total_sales (fold (\<lambda>i d. fill_at d i) is df) = map total_sales df \<and>
   map date (fold (\<lambda>i d. fill_at d i) is df) = map date df"
  by (induction "is" arbitrary: df)
     (simp_all add: length_fill_at total_sales_fill_at date_fill_at)


lemma total_sales_fill_loop: "map total_sales (fill_loop df) = map total_sales df"
  by (simp add: fill_loop_def fold_fill_at_frame)

lemma date_fill_loop: "map date (fill_loop df) = map date df"
  by (simp add: fill_loop_def fold_fill_at_frame)





subsection \<open>The whole gap loop\<close>









subsection \<open>Gaps between two known totals\<close>



subsection \<open>A gap that reaches the end of the frame\<close>




subsection \<open>Observed days that the gap loop leaves alone\<close>


subsection \<open>Daily sales, notes and the calendar of the input\<close>

lemma length_diff: "length (diff xs) = length xs"
  by (cases xs) simp_all

lemma diff_nth:
  "p < length xs \<Longrightarrow> diff xs ! p = (if p = 0 then None else Some (xs ! p - xs ! (p - 1)))"
proof (cases xs)
  case Nil
  then show "p < length xs \<Longrightarrow> ?thesis" by simp
next
  case (Cons x ys)
  assume "p < length xs"
  with Cons show ?thesis by (cases p) simp_all
qed

lemma length_add_daily_sales: "length (add_daily_sales df) = length df"
  by (simp add: add_daily_sales_def fillna_def length_diff)

lemma add_daily_sales_nth:
  assumes "p < length df"
  shows "add_daily_sales df ! p =
         \<lparr>Index = Index (df ! p), Total_Sales = Total_Sales (df ! p), Date = Date (df ! p),
          Daily_Sales = (if p = 0 then 0 else Total_Sales (df ! p) - Total_Sales (df ! (p - 1))),
          Notes = (if Index (df ! p) = 0 then ''Assumed'' else ''Delta'')\<rparr>"
  using assms by (simp add: add_daily_sales_def fillna_def length_diff diff_nth)

lemma Date_add_daily_sales: "map Date (add_daily_sales df) = map Date df"
  by (rule nth_equalityI) (simp_all add: length_add_daily_sales add_daily_sales_nth)



lemma date_reindex: "map date (reindex rows ds) = ds"
  by (rule nth_equalityI) (simp_all add: reindex_def split: option.splits)




subsection \<open>What gap filling keeps of the observed days\<close>




subsection \<open>Runs of flagged days at the two ends of the series\<close>

lemma last_valid_none: "\<forall>k<i. col ! k = None \<Longrightarrow> last_valid col i = None"
  by (induction i) simp_all

lemma last_valid_some:
  "a < i \<Longrightarrow> col ! a = Some va \<Longrightarrow> \<forall>k. a < k \<and> k < i \<longrightarrow> col ! k = None \<Longrightarrow>
   last_valid col i = Some (a, va)"
proof (induction i)
  case 0
  then show ?case by simp
next
  case (Suc i)
  show ?case
  proof (cases "a = i")
    case True
    with Suc.prems show ?thesis by simp
  next
    case False
    with Suc.prems have "a < i" and "col ! i = None" by simp_all
    with Suc show ?thesis by simp
  qed
qed

lemma first_valid_none:
  "\<forall>m. k \<le> m \<and> m < length col \<longrightarrow> col ! m = None \<Longrightarrow> first_valid col k = None"
proof (induction col k rule: first_valid.induct)
  case (1 col k)
  show ?case
  proof (cases "length col \<le> k")
    case True
    then show ?thesis by (subst first_valid.simps) simp
  next
    case False
    with 1 have "col ! k = None" by simp
    moreover from 1 False this have "first_valid col (Suc k) = None" by simp
    ultimately show ?thesis using False by (subst first_valid.simps) simp
  qed
qed

lemma correct_leading:
  assumes len: "length flags = length df" and i: "i < length df"
    and lead: "\<forall>k\<le>i. flags ! k"
  shows "daily_sales (correct_anomalies df flags ! i) = 0"
proof -
  let ?col = "mask_anomalies df flags"
  have "\<forall>k\<le>i. ?col ! k = None" using len i lead by (simp add: mask_nth)
  then have "?col ! i = None" and "last_valid ?col i = None"
    by (simp_all add: last_valid_none)
  then have "interpolate_at ?col i = None" by (simp add: interpolate_at_def)
  then show ?thesis using len i by (simp add: correct_nth round_half_even_def)
qed

lemma correct_trailing:
  assumes len: "length flags = length df" and i: "i < length df"
    and a: "a < i" "\<not> flags ! a"
    and trail: "\<forall>k. a < k \<and> k < length df \<longrightarrow> flags ! k"
  shows "daily_sales (correct_anomalies df flags ! i) = daily_sales (df ! a)"
proof -
  let ?col = "mask_anomalies df flags"
  have col_len: "length ?col = length df" using len by (rule length_mask)
  have none: "\<forall>k. a < k \<and> k < length df \<longrightarrow> ?col ! k = None"
    using len trail by (simp add: mask_nth)
  have col_a: "?col ! a = Some (of_int (daily_sales (df ! a)))"
    using len i a by (simp add: mask_nth)
  have "?col ! i = None" using none a i by simp
  moreover have "last_valid ?col i = Some (a, of_int (daily_sales (df ! a)))"
    using a(1) col_a none i by (intro last_valid_some) simp_all
  moreover have "first_valid ?col (Suc i) = None"
    using none a col_len by (intro first_valid_none) simp
  ultimately have "interpolate_at ?col i = Some (of_int (daily_sales (df ! a)))"
    by (simp add: interpolate_at_def)
  then show ?thesis using len i by (simp add: correct_nth round_half_even_of_int)
qed

text \<open>
  Claim C4, as the code has it. A flagged run at the end of the series is not filled
  with 0: the daily sales 0, 10, -5 with the last day flagged (it is negative) come out
  as 0, 10, 10, the last known value carried forward.
\<close>

theorem trailing_run_not_zero:
  "detect all_inliers Auto
     [\<lparr>date = 1, total_sales = Some 100, daily_sales = 0, day_notes = ''Assumed''\<rparr>,
      \<lparr>date = 2, total_sales = Some 110, daily_sales = 10, day_notes = ''Delta''\<rparr>,
      \<lparr>date = 3, total_sales = Some 105, daily_sales = - 5, day_notes = ''Assumed''\<rparr>]
     = [False, False, True] \<and>
   map daily_sales (correct_anomalies
     [\<lparr>date = 1, total_sales = Some 100, daily_sales = 0, day_notes = ''Assumed''\<rparr>,
      \<lparr>date = 2, total_sales = Some 110, daily_sales = 10, day_notes = ''Delta''\<rparr>,
      \<lparr>date = 3, total_sales = Some 105, daily_sales = - 5, day_notes = ''Assumed''\<rparr>]
     [False, False, True]) = [0, 10, 10]"
  by code_simp

text \<open>
  Claim C4, amended. A day in a flagged run that starts at the first row gets daily
  sales 0. A day in a flagged run that ends at the last row and follows a day \<open>a\<close> that
  is not flagged gets the daily sales of \<open>a\<close>.
\<close>

theorem edge_runs_of_corrector:
  assumes "length anomalies = length df_final" and "i < length df_final"
  shows "((\<forall>k\<le>i. anomalies ! k) \<longrightarrow>
            daily_sales (correct_anomalies df_final anomalies ! i) = 0) \<and>
         (\<forall>a. a < i \<and> \<not> anomalies ! a \<and>
              (\<forall>k. a < k \<and> k < length df_final \<longrightarrow> anomalies ! k) \<longrightarrow>
            daily_sales (correct_anomalies df_final anomalies ! i) = daily_sales (df_final ! a))"
  using assms by (auto intro: correct_leading correct_trailing)

theorem edge_runs_of_corrector_witness:
  "daily_sales (correct_anomalies
     [\<lparr>date = 1, total_sales = Some 100, daily_sales = - 3, day_notes = ''Assumed''\<rparr>,
      \<lparr>date = 2, total_sales = Some 110, daily_sales = 10, day_notes = ''Delta''\<rparr>,
      \<lparr>date = 3, total_sales = Some 105, daily_sales = - 5, day_notes = ''Delta''\<rparr>,
      \<lparr>date = 4, total_sales = Some 98, daily_sales = - 7, day_notes = ''Assumed''\<rparr>]
     [True, False, True, True] ! 0) = 0 \<and>
   daily_sales (correct_anomalies
     [\<lparr>date = 1, total_sales = Some 100, daily_sales = - 3, day_notes = ''Assumed''\<rparr>,
      \<lparr>date = 2, total_sales = Some 110, daily_sales = 10, day_notes = ''Delta''\<rparr>,
      \<lparr>date = 3, total_sales = Some 105, daily_sales = - 5, day_notes = ''Delta''\<rparr>,
      \<lparr>date = 4, total_sales = Some 98, daily_sales = - 7, day_notes = ''Assumed''\<rparr>]
     [True, False, True, True] ! 3) = 10"
proof -
  let ?df = "[\<lparr>date = 1, total_sales = Some 100, daily_sales = - 3, day_notes = ''Assumed''\<rparr>,
      \<lparr>date = 2, total_sales = Some 110, daily_sales = 10, day_notes = ''Delta''\<rparr>,
      \<lparr>date = 3, total_sales = Some 105, daily_sales = - 5, day_notes = ''Delta''\<rparr>,
      \<lparr>date = 4, total_sales = Some 98, daily_sales = - 7, day_notes = ''Assumed''\<rparr>]"
  let ?flags = "[True, False, True, True]"
  have len: "length ?flags = length ?df" by simp
  have i0: "0 < length ?df" and i3: "3 < length ?df" by simp_all
  have lead: "\<forall>k\<le>0. ?flags ! k" by simp
  have trail: "(1::nat) < 3 \<and> \<not> ?flags ! 1 \<and> (\<forall>k. 1 < k \<and> k < length ?df \<longrightarrow> ?flags ! k)"
    by (auto simp: nth_Cons split: nat.splits)
  have "daily_sales (correct_anomalies ?df ?flags ! 0) = 0"
    using edge_runs_of_corrector [OF len i0] lead by blast
  moreover have "daily_sales (correct_anomalies ?df ?flags ! 3) = daily_sales (?df ! 1)"
    using edge_runs_of_corrector [OF len i3] trail by blast
  ultimately show ?thesis by simp
qed

subsection \<open>The note of the first calendar day\<close>

text \<open>
  Claim C6. Line 26 marks the row whose index label is 0, the first line of the file.
  When the file is not in date order that row is not the first calendar day: for a
  file whose first line has day 2 and whose second line has day 1, both with total 100,
  and a model that finds no outlier, day 1 comes out with daily sales 0 and the note
  \<^verbatim>\<open>Delta\<close>, day 2 with the note \<^verbatim>\<open>Assumed\<close>.
\<close>

theorem first_day_note_unsorted:
  "process_sales_data all_inliers (load_data [(100, 2), (100, 1)]) Auto =
     Inr ([\<lparr>date = 1, total_sales = Some 100, daily_sales = 0, day_notes = ''Delta''\<rparr>,
           \<lparr>date = 2, total_sales = Some 100, daily_sales = 0, day_notes = ''Assumed''\<rparr>], [])"
  by code_simp


subsection \<open>The seed of the model\<close>

lemma detect_cong:
  assumes "\<forall>f i. forest1 c 42 f i = forest2 c 42 f i"
  shows "detect forest1 c df = detect forest2 c df"
proof -
  have "forest1 c 42 (feature_rows df) = forest2 c 42 (feature_rows df)"
    using assms by (intro ext) simp
  then show ?thesis by (simp add: detect_def anomaly_score_def)
qed

text \<open>
  Claim C10. The model is always fitted with \<^verbatim>\<open>random_state=42\<close>: two models that
  agree under that seed, whatever they do under another, give the same result on the
  same input and contamination.
\<close>

theorem seeded_identically:
  "\<forall>f i. forest1 c 42 f i = forest2 c 42 f i \<Longrightarrow>
   process_sales_data forest1 df c = process_sales_data forest2 df c"
  by (simp add: process_sales_data_def Let_def detect_cong [of forest1 c forest2])

theorem seeded_identically_witness:
  "seed_42_inliers Auto 7 [] 0 \<noteq> all_inliers Auto 7 [] 0 \<and>
   process_sales_data seed_42_inliers (load_data [(100, 1), (110, 2)]) Auto =
   process_sales_data all_inliers (load_data [(100, 1), (110, 2)]) Auto"
proof -
  have h: "\<forall>f i. seed_42_inliers Auto 42 f i = all_inliers Auto 42 f i"
    by (simp add: seed_42_inliers_def all_inliers_def)
  have "process_sales_data seed_42_inliers (load_data [(100, 1), (110, 2)]) Auto =
        process_sales_data all_inliers (load_data [(100, 1), (110, 2)]) Auto"
    using h by (rule seeded_identically [of seed_42_inliers Auto all_inliers])
  then show ?thesis by (simp add: seed_42_inliers_def all_inliers_def)
qed

subsection \<open>The calendar of the result\<close>

lemma date_fill_gaps: "map date (fill_gaps df) = map date df"
proof -
  have "map date (fill_gaps df) = map date (fill_loop df)"
    by (simp add: fill_gaps_def close_row_def)
  then show ?thesis by (simp add: date_fill_loop)
qed

lemma total_sales_fill_gaps: "map total_sales (fill_gaps df) = map total_sales df"
proof -
  have "map total_sales (fill_gaps df) = map total_sales (fill_loop df)"
    by (simp add: fill_gaps_def close_row_def)
  then show ?thesis by (simp add: total_sales_fill_loop)
qed

lemma date_correct:
  "length flags = length df \<Longrightarrow> map date (correct_anomalies df flags) = map date df"
  by (rule nth_equalityI) (simp_all add: length_correct correct_nth)

lemma process_sales_data_Inr:
  assumes "df \<noteq> []" "distinct (map Date df)"
  shows "process_sales_data forest df c =
         (let rows = add_daily_sales df;
              df_final = fill_gaps (reindex rows
                 (date_range (Min (set (map Date df))) (Max (set (map Date df)))));
              anomalies = detect forest c df_final
          in Inr (correct_anomalies df_final anomalies,
                  flagged_originals rows df_final anomalies))"
proof -
  have "add_daily_sales df \<noteq> []"
    using assms(1) length_add_daily_sales [of df] by (metis length_0_conv)
  moreover have "map Date (add_daily_sales df) = map Date df"
    by (rule Date_add_daily_sales)
  ultimately show ?thesis using assms(2)
    by (simp add: process_sales_data_def Let_def)
qed

lemma calendar_of_frame:
  assumes "df \<noteq> []" "distinct (map Date df)"
  shows "\<exists>df_final original_anomalies.
           process_sales_data forest df c = Inr (df_final, original_anomalies) \<and>
           map date df_final = [Min (set (map Date df))..Max (set (map Date df))]"
proof -
  let ?full = "reindex (add_daily_sales df)
                 (date_range (Min (set (map Date df))) (Max (set (map Date df))))"
  let ?flags = "detect forest c (fill_gaps ?full)"
  have "map date (correct_anomalies (fill_gaps ?full) ?flags) = map date (fill_gaps ?full)"
    by (rule date_correct) (rule length_detect)
  also have "\<dots> = map date ?full" by (rule date_fill_gaps)
  also have "\<dots> = [Min (set (map Date df))..Max (set (map Date df))]"
    by (simp add: date_reindex date_range_def)
  finally show ?thesis
    using process_sales_data_Inr [OF assms, of forest c] by (simp add: Let_def)
qed

lemma Date_set_drop_duplicates: "Date ` set (drop_duplicates rs) = Date ` set rs"
proof (induction rs rule: drop_duplicates.induct)
  case 1
  then show ?case by simp
next
  case (2 r rs)
  then show ?case by auto
qed

lemma distinct_drop_duplicates: "distinct (map Date (drop_duplicates rs))"
proof (induction rs rule: drop_duplicates.induct)
  case 1
  then show ?case by simp
next
  case (2 r rs)
  have "Date r \<notin> Date ` set (filter (\<lambda>x. Date x \<noteq> Date r) rs)" by auto
  then have "Date r \<notin> Date ` set (drop_duplicates (filter (\<lambda>x. Date x \<noteq> Date r) rs))"
    by (simp add: Date_set_drop_duplicates)
  with 2 show ?case by simp
qed

lemma distinct_map_insort_key:
  "distinct (map f (insort_key f x xs)) = (f x \<notin> f ` set xs \<and> distinct (map f xs))"
  by (induction xs) (auto simp: set_insort_key)

lemma distinct_map_sort_key: "distinct (map f (sort_key f xs)) = distinct (map f xs)"
  by (induction xs) (simp_all add: distinct_map_insort_key)

lemma Date_read_csv: "map Date (read_csv lines) = map snd lines"
proof -
  have "map Date (read_csv lines) = map (snd \<circ> snd) (enumerate 0 lines)"
    by (simp add: read_csv_def case_prod_beta comp_def)
  also have "\<dots> = map snd (map snd (enumerate 0 lines))" by (simp only: map_map)
  also have "\<dots> = map snd lines" by (simp only: map_snd_enumerate)
  finally show ?thesis .
qed

lemma Date_set_load_data: "Date ` set (load_data lines) = snd ` set lines"
proof -
  have "Date ` set (load_data lines) = Date ` set (read_csv lines)"
    by (simp add: load_data_def Date_set_drop_duplicates)
  also have "\<dots> = set (map Date (read_csv lines))" by simp
  also have "\<dots> = snd ` set lines" by (simp only: Date_read_csv set_map)
  finally show ?thesis .
qed

lemma distinct_load_data: "distinct (map Date (load_data lines))"
  by (simp add: load_data_def distinct_map_sort_key distinct_drop_duplicates)

lemma load_data_nonempty: "lines \<noteq> [] \<Longrightarrow> load_data lines \<noteq> []"
proof -
  assume "lines \<noteq> []"
  then have "snd ` set lines \<noteq> {}" by simp
  then have "Date ` set (load_data lines) \<noteq> {}" by (simp add: Date_set_load_data)
  then show ?thesis by auto
qed

text \<open>
  Claim C2. For every input with at least one line the result has exactly one row per
  calendar day from the smallest to the largest date of the input, in order: its dates
  are the list of all days from the minimum to the maximum, so there are
  \<open>max - min + 1\<close> of them, none missing and none twice.
\<close>

theorem one_row_per_calendar_day:
  assumes "lines \<noteq> []"
  shows "\<exists>df_final original_anomalies.
           process_sales_data forest (load_data lines) c = Inr (df_final, original_anomalies) \<and>
           map date df_final = [Min (snd ` set lines)..Max (snd ` set lines)] \<and>
           length df_final = nat (Max (snd ` set lines) - Min (snd ` set lines) + 1) \<and>
           distinct (map date df_final)"
proof -
  have "load_data lines \<noteq> []" using assms by (rule load_data_nonempty)
  then obtain df_final original_anomalies where
    res: "process_sales_data forest (load_data lines) c = Inr (df_final, original_anomalies)"
    and dates: "map date df_final =
       [Min (set (map Date (load_data lines)))..Max (set (map Date (load_data lines)))]"
    using calendar_of_frame [OF _ distinct_load_data, of lines forest c] by blast
  from dates have d: "map date df_final = [Min (snd ` set lines)..Max (snd ` set lines)]"
    by (simp only: set_map Date_set_load_data)
  have "length df_final = length (map date df_final)" by simp
  also have "\<dots> = nat (Max (snd ` set lines) - Min (snd ` set lines) + 1)"
    by (simp only: d length_upto)
  finally have len: "length df_final = nat (Max (snd ` set lines) - Min (snd ` set lines) + 1)" .
  have "distinct (map date df_final)" by (simp only: d distinct_upto)
  with res d len show ?thesis by blast
qed

theorem one_row_per_calendar_day_witness:
  "\<exists>df_final original_anomalies.
     process_sales_data all_inliers (load_data [(100, 1), (130, 3)]) Auto =
       Inr (df_final, original_anomalies) \<and>
     map date df_final = [1, 2, 3] \<and> length df_final = 3"
proof -
  have ne: "[(100, 1), (130, 3)] \<noteq> ([] :: (int \<times> int) list)" by simp
  have lo: "Min (snd ` set [(100 :: int, 1 :: int), (130, 3)]) = 1" by simp
  have hi: "Max (snd ` set [(100 :: int, 1 :: int), (130, 3)]) = 3" by simp
  have cal: "[1..3] = [1, 2, 3 :: int]" by code_simp
  from one_row_per_calendar_day [OF ne, of all_inliers Auto]
  show ?thesis unfolding lo hi cal by auto
qed

subsection \<open>An input without gaps and without anomalies\<close>







end
